theory Spec2Isabelle
  imports Complex_Main
begin

section \<open>JavaScript strings\<close>

text \<open>
  A JavaScript string is a sequence of UTF-16 code units. The model is \<^typ>\<open>string\<close>: a
  \<^typ>\<open>char\<close> stands for the code unit with the same number, so the model covers exactly
  the strings whose code units are below 256 (U+0000 to U+00FF), and the string functions
  below are written to agree with the JavaScript ones on those strings.
\<close>

abbreviation LF :: char where "LF \<equiv> CHR 0x0A"
abbreviation CR :: char where "CR \<equiv> CHR 0x0D"
abbreviation DQUOTE :: char where "DQUOTE \<equiv> CHR 0x22"
abbreviation SQUOTE :: char where "SQUOTE \<equiv> CHR 0x27"

text \<open>\<^verbatim>\<open>Array.prototype.join\<close> on an array of strings.\<close>

fun js_join :: "string \<Rightarrow> string list \<Rightarrow> string" where
  "js_join sep [] = []"
| "js_join sep [x] = x"
| "js_join sep (x # y # ys) = x @ sep @ js_join sep (y # ys)"

text \<open>\<^verbatim>\<open>String(n)\<close> for a non-negative integer below \<open>10^21\<close>: its decimal digits.\<close>

definition digit_char :: "nat \<Rightarrow> char" where
  "digit_char d = ''0123456789'' ! d"

fun string_of_nat :: "nat \<Rightarrow> string" where
  "string_of_nat n =
     (if n < 10 then [digit_char n] else string_of_nat (n div 10) @ [digit_char (n mod 10)])"

declare string_of_nat.simps [simp del]

text \<open>\<^verbatim>\<open>String(b)\<close> for a boolean.\<close>

definition string_of_bool :: "bool \<Rightarrow> string" where
  "string_of_bool b = (if b then ''true'' else ''false'')"

text \<open>
  \<^verbatim>\<open>String.prototype.trim\<close> removes white space and line terminators from both ends. Below
  U+0100 these are TAB, LF, VT, FF, CR, SPACE and NO-BREAK SPACE.
\<close>

definition is_js_space :: "char \<Rightarrow> bool" where
  "is_js_space c = (of_char c \<in> {9, 10, 11, 12, 13, 32, 160 :: nat})"

definition js_trim :: "string \<Rightarrow> string" where
  "js_trim s = rev (dropWhile is_js_space (rev (dropWhile is_js_space s)))"

text \<open>
  \<^verbatim>\<open>String.prototype.toLowerCase\<close>: below U+0100 the letters with a lower-case form are
  A to Z and U+00C0 to U+00DE without the multiplication sign U+00D7, each 32 below its
  lower-case form.
\<close>

definition lower_char :: "char \<Rightarrow> char" where
  "lower_char c =
     (let n = (of_char c :: nat)
      in if (65 \<le> n \<and> n \<le> 90) \<or> (192 \<le> n \<and> n \<le> 222 \<and> n \<noteq> 215) then char_of (n + 32) else c)"

definition toLowerCase :: "string \<Rightarrow> string" where
  "toLowerCase s = map lower_char s"

text \<open>
  \<^verbatim>\<open>s.split(",")\<close>: the pieces between the occurrences of a one-character separator (always
  at least one piece).
\<close>

fun split_on :: "char \<Rightarrow> string \<Rightarrow> string list" where
  "split_on d [] = [[]]"
| "split_on d (c # cs) =
     (if c = d then [] # split_on d cs
      else (case split_on d cs of [] \<Rightarrow> [[c]] | l # ls \<Rightarrow> (c # l) # ls))"

text \<open>
  \<^verbatim>\<open>content.split(/\r?\n/)\<close>: a line feed separates two pieces, and a carriage return
  right before it belongs to the separator.
\<close>

fun split_lines :: "string \<Rightarrow> string list" where
  "split_lines [] = [[]]"
| "split_lines (c # cs) =
     (if c = LF then [] # split_lines cs
      else if c = CR \<and> cs \<noteq> [] \<and> hd cs = LF then split_lines cs
      else (case split_lines cs of [] \<Rightarrow> [[c]] | l # ls \<Rightarrow> (c # l) # ls))"

subsection \<open>Regular expressions\<close>

text \<open>
  The regular expressions of the program are sequences of character classes, each taken
  once, optionally (\<^verbatim>\<open>?\<close>) or any number of times (\<^verbatim>\<open>*\<close>), anchored at the start of the
  input and some also at its end. \<open>seq_match\<close> decides whether such a sequence matches at
  the start of a string, trying every way to match as the backtracking matcher does.
\<close>

datatype cls_item = Single char | Range char char

datatype quant = Once | Optional | Many

type_synonym regex = "(cls_item list \<times> quant) list"

text \<open>
  The \<^verbatim>\<open>i\<close> flag compares canonical forms: the upper-case form of a character when it is one
  code unit, unless that would take a character from U+0080 upwards to one below.
\<close>

definition canonicalize :: "char \<Rightarrow> nat" where
  "canonicalize c =
     (let n = (of_char c :: nat)
      in if (97 \<le> n \<and> n \<le> 122) \<or> (224 \<le> n \<and> n \<le> 254 \<and> n \<noteq> 247) then n - 32
         else if n = 255 then 376
         else if n = 181 then 924
         else n)"

fun item_match :: "bool \<Rightarrow> cls_item \<Rightarrow> char \<Rightarrow> bool" where
  "item_match ic (Single a) c = (if ic then canonicalize c = canonicalize a else c = a)"
| "item_match ic (Range lo hi) c =
     (if ic
      then (\<exists>n \<in> set [of_char lo ..< Suc (of_char hi)]. canonicalize (char_of n) = canonicalize c)
      else (of_char lo :: nat) \<le> of_char c \<and> (of_char c :: nat) \<le> of_char hi)"

definition class_match :: "bool \<Rightarrow> cls_item list \<Rightarrow> char \<Rightarrow> bool" where
  "class_match ic cls c = (\<exists>i \<in> set cls. item_match ic i c)"

fun seq_match :: "bool \<Rightarrow> bool \<Rightarrow> regex \<Rightarrow> string \<Rightarrow> bool" where
  "seq_match ic to_end [] s = (if to_end then s = [] else True)"
| "seq_match ic to_end ((cls, Once) # r) s =
     (case s of [] \<Rightarrow> False | c # cs \<Rightarrow> class_match ic cls c \<and> seq_match ic to_end r cs)"
| "seq_match ic to_end ((cls, Optional) # r) s =
     ((case s of [] \<Rightarrow> False | c # cs \<Rightarrow> class_match ic cls c \<and> seq_match ic to_end r cs)
      \<or> seq_match ic to_end r s)"
| "seq_match ic to_end ((cls, Many) # r) s =
     ((case s of [] \<Rightarrow> False
       | c # cs \<Rightarrow> class_match ic cls c \<and> seq_match ic to_end ((cls, Many) # r) cs)
      \<or> seq_match ic to_end r s)"

text \<open>\<^verbatim>\<open>/^r/.test(s)\<close> and \<^verbatim>\<open>/^r$/.test(s)\<close>, the first argument being the \<^verbatim>\<open>i\<close> flag.\<close>

definition test_prefix :: "bool \<Rightarrow> regex \<Rightarrow> string \<Rightarrow> bool" where
  "test_prefix ic r s = seq_match ic False r s"

definition test_whole :: "bool \<Rightarrow> regex \<Rightarrow> string \<Rightarrow> bool" where
  "test_whole ic r s = seq_match ic True r s"

definition lit :: "char \<Rightarrow> cls_item list \<times> quant" where
  "lit c = ([Single c], Once)"

section \<open>The outcome record\<close>

text \<open>\<^verbatim>\<open>interface CheckResult\<close> of \<^verbatim>\<open>index.ts\<close>.\<close>

record CheckResult =
  url :: string
  detected :: bool
  valid :: bool
  version :: string
  toolCount :: nat
  toolNames :: string
  error :: string

section \<open>CSV output\<close>

text \<open>\<^verbatim>\<open>value.replace(/"/g, '""')\<close>: every double quote is replaced by two.\<close>

fun double_quotes :: "string \<Rightarrow> string" where
  "double_quotes [] = []"
| "double_quotes (c # cs) =
     (if c = DQUOTE then DQUOTE # DQUOTE # double_quotes cs else c # double_quotes cs)"

definition escapeCsvField :: "string \<Rightarrow> string" where
  "escapeCsvField v =
     (if CHR '','' \<in> set v \<or> DQUOTE \<in> set v \<or> LF \<in> set v
      then [DQUOTE] @ double_quotes v @ [DQUOTE]
      else v)"

definition csv_header :: string where
  "csv_header = ''url,detected,valid,version,tool_count,tool_names,error''"

definition csv_row :: "CheckResult \<Rightarrow> string" where
  "csv_row r =
     js_join '',''
       [escapeCsvField (url r),
        string_of_bool (detected r),
        string_of_bool (valid r),
        escapeCsvField (version r),
        string_of_nat (toolCount r),
        escapeCsvField (toolNames r),
        escapeCsvField (error r)]"

definition resultsToCsv :: "CheckResult list \<Rightarrow> string" where
  "resultsToCsv results = js_join [LF] (csv_header # map csv_row results) @ [LF]"

section \<open>CSV input\<close>

text \<open>
  \<^verbatim>\<open>col.replace(/^["']|["']$/g, "")\<close>: a quote character at the start is removed, and a
  quote character at the end of what is left is removed.
\<close>

definition is_quote :: "char \<Rightarrow> bool" where
  "is_quote c = (c = DQUOTE \<or> c = SQUOTE)"

definition strip_quotes :: "string \<Rightarrow> string" where
  "strip_quotes col =
     (let rest = (case col of [] \<Rightarrow> [] | c # cs \<Rightarrow> if is_quote c then cs else col)
      in if rest \<noteq> [] \<and> is_quote (last rest) then butlast rest else rest)"

text \<open>
  \<^verbatim>\<open>parseCsvUrls\<close>, from the content of the file on: reading the file is the caller's
  concern (\<^verbatim>\<open>runBatch\<close> catches its failure).
\<close>

definition first_column :: "string \<Rightarrow> string" where
  "first_column line = (case split_on (CHR '','') line of [] \<Rightarrow> [] | col # _ \<Rightarrow> js_trim col)"

definition parseCsvUrls :: "string \<Rightarrow> string list" where
  "parseCsvUrls content =
     (let lines = filter (\<lambda>line. js_trim line \<noteq> []) (split_lines content);
          first = (case lines of [] \<Rightarrow> None | l # _ \<Rightarrow> Some (js_trim (toLowerCase l)));
          start = (if first = Some ''url'' \<or> first = Some ''domain'' \<or> first = Some ''website''
                   then 1 else 0 :: nat)
      in map (\<lambda>line. strip_quotes (first_column line)) (drop start lines))"

section \<open>JSON documents and the manifest schema\<close>

text \<open>
  What \<^verbatim>\<open>response.json()\<close> can return: a number is a finite double, a rational, or an
  infinity (the value of \<^verbatim>\<open>1e999\<close>); an object lists its own properties in enumeration order.
\<close>

datatype jsnumber = Finite rat | PosInfinity | NegInfinity

datatype json =
    JNull
  | JBool bool
  | JNumber jsnumber
  | JString string
  | JArray "json list"
  | JObject "(string \<times> json) list"

text \<open>
  The schema literal \<^verbatim>\<open>webmcpSchema\<close> as data. Every node of it has a \<^verbatim>\<open>type\<close>, which
  selects the constructor; a keyword the node does not have is the keyword's default
  (no required property, additional properties allowed, no declared property, no minimum
  number of items). A \<^verbatim>\<open>pattern\<close> carries its source text and its regular expression, with
  whether it ends in \<^verbatim>\<open>$\<close>.
\<close>

datatype string_keyword =
    Enum "string list"
  | Pattern string regex bool
  | Format string
  | MinLength nat

datatype schema =
    SString "string_keyword list"
  | SBoolean
  | SNumber "nat option"
  | SArray nat schema
  | SObject "string list" bool "(string \<times> schema) list"

definition any_object :: schema where
  "any_object = SObject [] True []"

definition string_array :: schema where
  "string_array = SArray 0 (SString [])"

definition lower_alpha :: cls_item where
  "lower_alpha = Range (CHR ''a'') (CHR ''z'')"

definition http_scheme_regex :: regex where
  "http_scheme_regex =
     [lit (CHR ''h''), lit (CHR ''t''), lit (CHR ''t''), lit (CHR ''p''),
      ([Single (CHR ''s'')], Optional), lit (CHR '':''), lit (CHR ''/''), lit (CHR ''/'')]"

definition tool_name_regex :: regex where
  "tool_name_regex =
     [([lower_alpha], Once),
      ([lower_alpha, Range (CHR ''0'') (CHR ''9''), Single (CHR ''_'')], Many)]"

definition pricing_schema :: schema where
  "pricing_schema =
     SObject [''model''] False
       [(''model'', SString [Enum [''free'', ''per_call'', ''subscription'']]),
        (''price_usd'', SNumber (Some 0)),
        (''notes'', SString [])]"

definition tool_schema :: schema where
  "tool_schema =
     SObject
       [''name'', ''description'', ''version'', ''tags'', ''risk_level'',
        ''requires_user_confirm'', ''input_schema'', ''output_schema'']
       False
       [(''name'', SString [Pattern ''^[a-z][a-z0-9_]*$'' tool_name_regex True]),
        (''description'', SString [MinLength 1]),
        (''version'', SString [MinLength 1]),
        (''tags'', string_array),
        (''risk_level'', SString [Enum [''low'', ''medium'', ''high'']]),
        (''requires_user_confirm'', SBoolean),
        (''input_schema'', any_object),
        (''output_schema'', any_object),
        (''pricing'', pricing_schema)]"

definition auth_schema :: schema where
  "auth_schema =
     SObject [''requires_login''] False
       [(''requires_login'', SBoolean), (''oauth_scopes'', string_array)]"

definition attestation_schema :: schema where
  "attestation_schema =
     SObject [''algo'', ''public_key_jwk'', ''signature'', ''signed_fields''] False
       [(''algo'', SString [Enum [''ed25519'']]),
        (''public_key_jwk'', any_object),
        (''signature'', SString []),
        (''signed_fields'', string_array)]"

definition webmcpSchema :: schema where
  "webmcpSchema =
     SObject [''manifest_version'', ''origin'', ''updated_at'', ''tools''] False
       [(''manifest_version'', SString [Enum [''0.1'']]),
        (''origin'', SString [Pattern ''^https?://'' http_scheme_regex False]),
        (''updated_at'', SString [Format ''date-time'']),
        (''tools'', SArray 1 tool_schema),
        (''auth'', auth_schema),
        (''attestation'', attestation_schema)]"

subsection \<open>The validator\<close>

text \<open>
  \<^verbatim>\<open>ajv.compile(schema)\<close> with \<^verbatim>\<open>allErrors\<close>: the validator returns every violation, each
  with the JSON pointer of the offending value and a message, and the document is valid
  when there is none. The format checkers come from \<^verbatim>\<open>ajv-formats\<close> and are a parameter:
  a function from the format's name to its test. The messages are worded as Ajv words
  them.

  Ajv checks the keywords of a node in groups: first those that are tied to no type
  (\<^verbatim>\<open>enum\<close>), on a value of any type, then those of numbers, strings, arrays and objects,
  each group only on a value of its type. The \<^verbatim>\<open>type\<close> of a node with a keyword of its own
  type's group is checked with that group; the \<^verbatim>\<open>type\<close> of any other node is checked
  before all keywords. So a value that is no string violates both the \<^verbatim>\<open>type\<close> and the
  \<^verbatim>\<open>enum\<close> of a node that has them, in this order.
\<close>

record ErrorObject =
  instancePath :: string
  message :: string

definition violation :: "string \<Rightarrow> string \<Rightarrow> ErrorObject list" where
  "violation p m = [\<lparr>instancePath = p, message = m\<rparr>]"

fun check_string_keyword ::
  "(string \<Rightarrow> string \<Rightarrow> bool) \<Rightarrow> string \<Rightarrow> string \<Rightarrow> string_keyword \<Rightarrow> ErrorObject list" where
  "check_string_keyword fmt p s (Enum allowed) =
     (if s \<in> set allowed then [] else violation p ''must be equal to one of the allowed values'')"
| "check_string_keyword fmt p s (Pattern src r to_end) =
     (if (if to_end then test_whole False r s else test_prefix False r s) then []
      else violation p (''must match pattern '' @ [DQUOTE] @ src @ [DQUOTE]))"
| "check_string_keyword fmt p s (Format name) =
     (if fmt name s then [] else violation p (''must match format '' @ [DQUOTE] @ name @ [DQUOTE]))"
| "check_string_keyword fmt p s (MinLength n) =
     (if n \<le> length s then []
      else violation p (''must NOT have fewer than '' @ string_of_nat n @ '' characters''))"

definition is_enum :: "string_keyword \<Rightarrow> bool" where
  "is_enum kw = (case kw of Enum allowed \<Rightarrow> True | _ \<Rightarrow> False)"

text \<open>
  The \<^verbatim>\<open>enum\<close> of a node on a value that is no string: the allowed values are strings, so
  the value equals none of them.
\<close>

definition enum_on_other :: "string \<Rightarrow> string_keyword list \<Rightarrow> ErrorObject list" where
  "enum_on_other p kws =
     concat (map (\<lambda>kw. violation p ''must be equal to one of the allowed values'')
               (filter is_enum kws))"

fun ajv_validate ::
  "(string \<Rightarrow> string \<Rightarrow> bool) \<Rightarrow> schema \<Rightarrow> string \<Rightarrow> json \<Rightarrow> ErrorObject list" where
  "ajv_validate fmt (SString kws) p j =
     (case j of
        JString s \<Rightarrow>
          concat (map (check_string_keyword fmt p s) (filter is_enum kws))
          @ concat (map (check_string_keyword fmt p s) (filter (\<lambda>kw. \<not> is_enum kw) kws))
      | _ \<Rightarrow>
          if filter (\<lambda>kw. \<not> is_enum kw) kws = []
          then violation p ''must be string'' @ enum_on_other p kws
          else enum_on_other p kws @ violation p ''must be string'')"
| "ajv_validate fmt SBoolean p j =
     (case j of JBool b \<Rightarrow> [] | _ \<Rightarrow> violation p ''must be boolean'')"
| "ajv_validate fmt (SNumber minimum) p j =
     (case j of
        JNumber (Finite q) \<Rightarrow>
          (case minimum of
             None \<Rightarrow> []
           | Some m \<Rightarrow> if of_nat m \<le> q then [] else violation p (''must be >= '' @ string_of_nat m))
      | _ \<Rightarrow> violation p ''must be number'')"
| "ajv_validate fmt (SArray min_items items) p j =
     (case j of
        JArray xs \<Rightarrow>
          (if length xs < min_items
           then violation p (''must NOT have fewer than '' @ string_of_nat min_items @ '' items'')
           else [])
          @ concat (map (\<lambda>i. ajv_validate fmt items (p @ ''/'' @ string_of_nat i) (xs ! i))
                      [0 ..< length xs])
      | _ \<Rightarrow> violation p ''must be array'')"
| "ajv_validate fmt (SObject required additional properties) p j =
     (case j of
        JObject kvs \<Rightarrow>
          concat (map (\<lambda>k. if map_of kvs k = None
                           then violation p (''must have required property '' @ [SQUOTE] @ k @ [SQUOTE])
                           else []) required)
          @ (if additional then []
             else concat (map (\<lambda>k. if k \<in> set (map fst properties) then []
                                    else violation p ''must NOT have additional properties'')
                            (map fst kvs)))
          @ concat (map (\<lambda>ks. case map_of kvs (fst ks) of
                                 None \<Rightarrow> []
                               | Some v \<Rightarrow> ajv_validate fmt (snd ks) (p @ ''/'' @ fst ks) v)
                      properties)
      | _ \<Rightarrow> violation p ''must be object'')"

section \<open>The platform\<close>

text \<open>
  The program runs on three things that are not part of it: the URL parser of the
  runtime (\<^verbatim>\<open>new URL(s)\<close>, which throws on a string it cannot parse), \<^verbatim>\<open>fetch\<close>, and the
  format checkers of \<^verbatim>\<open>ajv-formats\<close>. They are parameters of the model. Of a parsed URL
  the program reads the \<^verbatim>\<open>origin\<close> only. A call of \<^verbatim>\<open>fetch\<close> depends on the state of the
  world and changes it, so the world is threaded through: \<open>'w\<close> is its type.
\<close>

record URL =
  origin :: string

record request =
  req_url :: string
  accept :: string
  timeout_ms :: nat

text \<open>
  A response, as far as the program reads it: the status, and what \<^verbatim>\<open>response.json()\<close>
  gives (\<open>None\<close> when it throws). \<^verbatim>\<open>response.ok\<close> is defined by the Fetch standard as a
  status from 200 to 299.
\<close>

record Response =
  status :: nat
  json_body :: "json option"

definition ok :: "Response \<Rightarrow> bool" where
  "ok r = (200 \<le> status r \<and> status r \<le> 299)"

text \<open>What a rejected \<^verbatim>\<open>fetch\<close> throws: an \<^verbatim>\<open>Error\<close> with its message, or some other value.\<close>

datatype thrown = Error_with string | Not_an_Error

datatype fetch_result = Rejects thrown | Resolves Response

record 'w platform =
  new_URL :: "string \<Rightarrow> URL option"
  fetch :: "request \<Rightarrow> 'w \<Rightarrow> fetch_result \<times> 'w"
  formats :: "string \<Rightarrow> string \<Rightarrow> bool"

section \<open>The checker\<close>

text \<open>
  What a function of the program can throw: the \<^verbatim>\<open>TypeError\<close> of \<^verbatim>\<open>new URL\<close>, and the
  failure of reading a document through the unchecked cast
  \<^verbatim>\<open>manifest as { manifest_version: string; tools: { name: string }[] }\<close> when the document
  has not that shape.
\<close>

datatype js_exception = Invalid_URL_TypeError | Not_of_cast_type

definition normalizeUrl :: "'w platform \<Rightarrow> string \<Rightarrow> js_exception + string" where
  "normalizeUrl P input =
     (let u = js_trim input;
          u = (if \<not> test_prefix True http_scheme_regex u then ''https://'' @ u else u)
      in case new_URL P u of
           None \<Rightarrow> Inl Invalid_URL_TypeError
         | Some parsed \<Rightarrow> Inr (origin parsed))"

text \<open>\<^verbatim>\<open>const validate = ajv.compile(webmcpSchema)\<close>; the pointer of the document is empty.\<close>

definition validate :: "'w platform \<Rightarrow> json \<Rightarrow> ErrorObject list" where
  "validate P manifest = ajv_validate (formats P) webmcpSchema [] manifest"

text \<open>Reading a property of a document, and reading it at the type of the cast.\<close>

definition property :: "json \<Rightarrow> string \<Rightarrow> json option" where
  "property j k = (case j of JObject kvs \<Rightarrow> map_of kvs k | _ \<Rightarrow> None)"

definition string_property :: "json \<Rightarrow> string \<Rightarrow> string option" where
  "string_property j k = (case property j k of Some (JString s) \<Rightarrow> Some s | _ \<Rightarrow> None)"

definition array_property :: "json \<Rightarrow> string \<Rightarrow> json list option" where
  "array_property j k = (case property j k of Some (JArray xs) \<Rightarrow> Some xs | _ \<Rightarrow> None)"

text \<open>\<^verbatim>\<open>`${e.instancePath || "/"} ${e.message}`\<close>\<close>

definition render_error :: "ErrorObject \<Rightarrow> string" where
  "render_error e =
     (if instancePath e = [] then ''/'' else instancePath e) @ '' '' @ message e"

text \<open>
  The record every failing return of \<^verbatim>\<open>checkUrl\<close> writes out: not valid, no version, no
  tools, with the \<^verbatim>\<open>url\<close>, \<^verbatim>\<open>detected\<close> and \<^verbatim>\<open>error\<close> of the return.
\<close>

definition failure :: "string \<Rightarrow> bool \<Rightarrow> string \<Rightarrow> CheckResult" where
  "failure u d e =
     \<lparr>url = u, detected = d, valid = False, version = [], toolCount = 0, toolNames = [],
      error = e\<rparr>"

definition manifest_request :: "string \<Rightarrow> request" where
  "manifest_request orig =
     \<lparr>req_url = orig @ ''/.well-known/webmcp.json'', accept = ''application/json'',
      timeout_ms = 10000\<rparr>"

definition checkUrl :: "'w platform \<Rightarrow> string \<Rightarrow> 'w \<Rightarrow> (js_exception + CheckResult) \<times> 'w" where
  "checkUrl P input w =
     (case normalizeUrl P input of
        Inl _ \<Rightarrow> (Inr (failure input False ''Invalid URL''), w)
      | Inr orig \<Rightarrow>
          (case fetch P (manifest_request orig) w of
             (Rejects err, w') \<Rightarrow>
               (Inr (failure orig False
                      (case err of Error_with m \<Rightarrow> m | Not_an_Error \<Rightarrow> ''Unknown network error'')),
                w')
           | (Resolves response, w') \<Rightarrow>
               if \<not> ok response
               then (Inr (failure orig False (''HTTP '' @ string_of_nat (status response))), w')
               else
                 (case json_body response of
                    None \<Rightarrow> (Inr (failure orig False ''Invalid JSON''), w')
                  | Some manifest \<Rightarrow>
                      let errors = validate P manifest in
                      if errors \<noteq> []
                      then (Inr (failure orig True
                                  (''Invalid manifest: '' @ js_join ''; '' (map render_error errors))),
                            w')
                      else
                        (case (string_property manifest ''manifest_version'',
                               array_property manifest ''tools'') of
                           (Some v, Some tools) \<Rightarrow>
                             (case those (map (\<lambda>t. string_property t ''name'') tools) of
                                Some names \<Rightarrow>
                                  (Inr \<lparr>url = orig, detected = True, valid = True, version = v,
                                        toolCount = length tools,
                                        toolNames = js_join ''; '' names, error = []\<rparr>,
                                   w')
                              | None \<Rightarrow> (Inl Not_of_cast_type, w'))
                         | _ \<Rightarrow> (Inl Not_of_cast_type, w')))))"

section \<open>The batch loop\<close>

text \<open>
  The loop of \<^verbatim>\<open>runBatch\<close>: one \<^verbatim>\<open>await checkUrl(url)\<close> after the other in the order of
  \<^verbatim>\<open>urls\<close>, each result pushed on \<^verbatim>\<open>results\<close>, and \<^verbatim>\<open>detected\<close> counted up on a result
  that is detected and valid. An exception of \<^verbatim>\<open>checkUrl\<close> would leave the loop. The
  progress lines written to the console are not modelled.
\<close>

fun runBatch_loop ::
  "'w platform \<Rightarrow> string list \<Rightarrow> CheckResult list \<Rightarrow> nat \<Rightarrow> 'w
     \<Rightarrow> js_exception + (CheckResult list \<times> nat \<times> 'w)" where
  "runBatch_loop P [] results n w = Inr (results, n, w)"
| "runBatch_loop P (u # urls) results n w =
     (case checkUrl P u w of
        (Inl e, w') \<Rightarrow> Inl e
      | (Inr result, w') \<Rightarrow>
          runBatch_loop P urls (results @ [result])
            (if detected result \<and> valid result then n + 1 else n) w')"

section \<open>The specification's wording, for comparison\<close>

text \<open>
  The tabular output as the specification words it: any field that contains the delimiter,
  a quote character or a newline is wrapped in quotes with each quote character inside
  doubled; a row is the seven fields in the documented order, booleans as
  \<^verbatim>\<open>true\<close>/\<^verbatim>\<open>false\<close> and the tool count in decimal digits.
\<close>

definition needs_quotes :: "string \<Rightarrow> bool" where
  "needs_quotes v = (\<exists>c \<in> set v. c = CHR '','' \<or> c = DQUOTE \<or> c = LF)"

definition quoted :: "string \<Rightarrow> string" where
  "quoted v =
     [DQUOTE] @ concat (map (\<lambda>c. if c = DQUOTE then [DQUOTE, DQUOTE] else [c]) v) @ [DQUOTE]"

definition csv_field_spec :: "string \<Rightarrow> string" where
  "csv_field_spec v = (if needs_quotes v then quoted v else v)"

definition csv_line_spec :: "CheckResult \<Rightarrow> string" where
  "csv_line_spec r =
     csv_field_spec (url r) @ '','' @
     csv_field_spec (if detected r then ''true'' else ''false'') @ '','' @
     csv_field_spec (if valid r then ''true'' else ''false'') @ '','' @
     csv_field_spec (version r) @ '','' @
     csv_field_spec (string_of_nat (toolCount r)) @ '','' @
     csv_field_spec (toolNames r) @ '','' @
     csv_field_spec (error r)"

text \<open>
  The Normalizer as the specification words it: a string begins with a prefix
  case-insensitively when its lower-case form begins with it.
\<close>

definition begins_with_ci :: "string \<Rightarrow> string \<Rightarrow> bool" where
  "begins_with_ci p s = (take (length p) (toLowerCase s) = p)"

text \<open>
  What the idempotence of the Normalizer needs of the runtime's URL parser: the origin of
  a string that begins with \<^verbatim>\<open>http://\<close> or \<^verbatim>\<open>https://\<close> (in any case) has no white space
  around it, begins with its scheme, and is parsed to a URL of that same origin. The URL
  standard makes the origin of such a URL its lower-case scheme, \<^verbatim>\<open>://\<close>, its serialized
  host and, when it is not the scheme's default, a colon and the port.
\<close>

definition canonical_origins :: "(string \<Rightarrow> URL option) \<Rightarrow> bool" where
  "canonical_origins parse =
     (\<forall>s parsed.
        test_prefix True http_scheme_regex s \<and> parse s = Some parsed \<longrightarrow>
          js_trim (origin parsed) = origin parsed \<and>
          test_prefix True http_scheme_regex (origin parsed) \<and>
          (\<exists>again. parse (origin parsed) = Some again \<and> origin again = origin parsed))"

section \<open>A sample platform\<close>

text \<open>
  A platform to run the model on. Its URL parser answers on a few strings, as the
  runtime's parser does on them, and rejects every other string. Its \<^verbatim>\<open>fetch\<close> serves a
  valid manifest of three tools at one origin, a status 404, a network failure, a body
  that is no JSON and a manifest that violates the schema at others; the world is the list
  of the addresses requested so far.
\<close>

definition sample_URL :: "string \<Rightarrow> URL option" where
  "sample_URL s =
     (if s = ''https://example.com'' then Some \<lparr>origin = ''https://example.com''\<rparr>
      else if s = ''HTTP://Example.com/path'' \<or> s = ''http://example.com''
        then Some \<lparr>origin = ''http://example.com''\<rparr>
      else if s = ''https://stripe.com'' then Some \<lparr>origin = ''https://stripe.com''\<rparr>
      else if s = ''https://github.com'' then Some \<lparr>origin = ''https://github.com''\<rparr>
      else if s = ''https://example.org'' then Some \<lparr>origin = ''https://example.org''\<rparr>
      else None)"

definition sample_tool :: "string \<Rightarrow> json" where
  "sample_tool name =
     JObject
       [(''name'', JString name),
        (''description'', JString ''A tool''),
        (''version'', JString ''1.0.0''),
        (''tags'', JArray []),
        (''risk_level'', JString ''low''),
        (''requires_user_confirm'', JBool False),
        (''input_schema'', JObject []),
        (''output_schema'', JObject [])]"

definition sample_manifest :: json where
  "sample_manifest =
     JObject
       [(''manifest_version'', JString ''0.1''),
        (''origin'', JString ''https://example.com''),
        (''updated_at'', JString ''2025-01-01T00:00:00Z''),
        (''tools'',
           JArray [sample_tool ''search_products'', sample_tool ''get_order'',
                   sample_tool ''create_return''])]"

definition broken_manifest :: json where
  "broken_manifest =
     JObject [(''manifest_version'', JNumber (Finite 5)), (''tools'', JArray [])]"

definition sample_fetch :: "request \<Rightarrow> string list \<Rightarrow> fetch_result \<times> string list" where
  "sample_fetch req w =
     (if req_url req = ''https://example.com/.well-known/webmcp.json''
        then Resolves \<lparr>status = 200, json_body = Some sample_manifest\<rparr>
      else if req_url req = ''https://stripe.com/.well-known/webmcp.json''
        then Resolves \<lparr>status = 404, json_body = Some sample_manifest\<rparr>
      else if req_url req = ''http://example.com/.well-known/webmcp.json''
        then Resolves \<lparr>status = 200, json_body = None\<rparr>
      else if req_url req = ''https://example.org/.well-known/webmcp.json''
        then Resolves \<lparr>status = 200, json_body = Some broken_manifest\<rparr>
      else Rejects (Error_with ''fetch failed''),
      w @ [req_url req])"

definition sample_formats :: "string \<Rightarrow> string \<Rightarrow> bool" where
  "sample_formats name s = (name = ''date-time'' \<and> s = ''2025-01-01T00:00:00Z'')"

definition sample_platform :: "string list platform" where
  "sample_platform =
     \<lparr>new_URL = sample_URL, fetch = sample_fetch, formats = sample_formats\<rparr>"

text \<open>
  The world after the entries of a list have been checked one after the other, starting
  in the world \<open>w\<close>.
\<close>

fun world_after :: "'w platform \<Rightarrow> string list \<Rightarrow> 'w \<Rightarrow> 'w" where
  "world_after P [] w = w"
| "world_after P (u # us) w = world_after P us (snd (checkUrl P u w))"

section \<open>Properties of the serializer\<close>

lemma js_join_Cons: "js_join sep (x # xs) = x @ concat (map (\<lambda>y. sep @ y) xs)"
  by (induction xs arbitrary: x) simp_all

lemma concat_sep_shift:
  "concat (map (\<lambda>y. sep @ f y) xs) @ sep = sep @ concat (map (\<lambda>y. f y @ sep) xs)"
  by (induction xs) simp_all

lemma double_quotes_concat:
  "double_quotes v = concat (map (\<lambda>c. if c = DQUOTE then [DQUOTE, DQUOTE] else [c]) v)"
  by (induction v) simp_all

lemma escapeCsvField_spec: "escapeCsvField v = csv_field_spec v"
  by (auto simp: escapeCsvField_def csv_field_spec_def needs_quotes_def quoted_def
      double_quotes_concat)

lemma digit_char_plain: "d < 10 \<Longrightarrow> \<not> needs_quotes [digit_char d]"
proof -
  assume "d < 10"
  then have "d \<in> {0, 1, 2, 3, 4, 5, 6, 7, 8, 9}" by auto
  then show ?thesis by (auto simp: digit_char_def needs_quotes_def)
qed

lemma needs_quotes_append: "needs_quotes (a @ b) \<longleftrightarrow> needs_quotes a \<or> needs_quotes b"
  by (auto simp: needs_quotes_def)

lemma string_of_nat_plain: "\<not> needs_quotes (string_of_nat n)"
proof (induction n rule: string_of_nat.induct)
  case (1 n)
  show ?case
  proof (cases "n < 10")
    case True
    then show ?thesis by (subst string_of_nat.simps) (simp add: digit_char_plain)
  next
    case False
    with 1 have "\<not> needs_quotes (string_of_nat (n div 10))" by simp
    moreover have "\<not> needs_quotes [digit_char (n mod 10)]" by (rule digit_char_plain) simp
    ultimately show ?thesis using False
      by (subst string_of_nat.simps) (simp add: needs_quotes_append)
  qed
qed

lemma csv_field_spec_plain:
  "csv_field_spec (string_of_nat n) = string_of_nat n"
  "csv_field_spec ''true'' = ''true''"
  "csv_field_spec ''false'' = ''false''"
  by (simp_all add: csv_field_spec_def string_of_nat_plain) (simp_all add: needs_quotes_def)

lemma csv_row_spec: "csv_row r = csv_line_spec r"
  by (simp add: csv_row_def csv_line_spec_def escapeCsvField_spec string_of_bool_def
      csv_field_spec_plain)

lemma resultsToCsv_lines:
  "resultsToCsv rs = csv_header @ [LF] @ concat (map (\<lambda>r. csv_line_spec r @ [LF]) rs)"
proof -
  have "resultsToCsv rs = csv_header @ (concat (map (\<lambda>y. [LF] @ csv_row y) rs) @ [LF])"
    by (simp add: resultsToCsv_def js_join_Cons o_def)
  also have "\<dots> = csv_header @ [LF] @ concat (map (\<lambda>r. csv_row r @ [LF]) rs)"
    by (simp only: concat_sep_shift)
  finally show ?thesis by (simp add: csv_row_spec)
qed

lemma escapeCsvField_last:
  assumes "v \<noteq> []"
  shows "last (escapeCsvField v) \<noteq> LF"
proof (cases "CHR '','' \<in> set v \<or> DQUOTE \<in> set v \<or> LF \<in> set v")
  case True
  then show ?thesis by (simp add: escapeCsvField_def)
next
  case False
  then have "LF \<notin> set v" by simp
  with assms have "last v \<noteq> LF" using last_in_set [of v] by metis
  with False show ?thesis by (simp add: escapeCsvField_def)
qed

lemma csv_row_last: "csv_row r \<noteq> [] \<and> last (csv_row r) \<noteq> LF"
proof (cases "error r = []")
  case True
  then show ?thesis by (simp add: csv_row_def escapeCsvField_def)
next
  case False
  then have "escapeCsvField (error r) \<noteq> []" by (auto simp: escapeCsvField_def)
  with False show ?thesis
    by (simp add: csv_row_def escapeCsvField_last)
qed

lemma js_join_last:
  "xs \<noteq> [] \<Longrightarrow> last xs \<noteq> [] \<Longrightarrow>
     js_join sep xs \<noteq> [] \<and> last (js_join sep xs) = last (last xs)"
  by (induction sep xs rule: js_join.induct) auto

lemma resultsToCsv_end:
  "\<exists>body. resultsToCsv rs = body @ [LF] \<and> body \<noteq> [] \<and> last body \<noteq> LF"
proof -
  let ?ls = "csv_header # map csv_row rs"
  have ne: "last ?ls \<noteq> []" and nl: "last (last ?ls) \<noteq> LF"
    using csv_row_last by (auto simp: csv_header_def last_map)
  from js_join_last [of ?ls "[LF]"] ne nl
  have "js_join [LF] ?ls \<noteq> [] \<and> last (js_join [LF] ?ls) \<noteq> LF" by simp
  then show ?thesis unfolding resultsToCsv_def by blast
qed

text \<open>
  Claim C8. For every sequence of outcomes the serializer emits the header line
  \<^verbatim>\<open>url,detected,valid,version,tool_count,tool_names,error\<close> and then one line per outcome,
  in order, each the seven fields in that order separated by commas, a field with a comma,
  a double quote or a newline wrapped in double quotes with its double quotes doubled, the
  booleans as \<^verbatim>\<open>true\<close>/\<^verbatim>\<open>false\<close>; and the text ends with exactly one line break: what
  stands before the last line break is not empty and does not end in a line break.
\<close>

theorem resultsToCsv_format:
  "resultsToCsv rs =
     ''url,detected,valid,version,tool_count,tool_names,error'' @ [LF]
       @ concat (map (\<lambda>r. csv_line_spec r @ [LF]) rs)
   \<and> (\<exists>body. resultsToCsv rs = body @ [LF] \<and> body \<noteq> [] \<and> last body \<noteq> LF)"
  using resultsToCsv_lines [of rs] resultsToCsv_end [of rs] by (simp add: csv_header_def)

theorem resultsToCsv_format_witness:
  "resultsToCsv
     [\<lparr>url = ''https://a,b'', detected = True, valid = False, version = ''0.1'',
       toolCount = 12, toolNames = ''a; b'', error = ''say '' @ [DQUOTE] @ ''x'' @ [DQUOTE, LF]\<rparr>]
   = ''url,detected,valid,version,tool_count,tool_names,error'' @ [LF]
     @ [DQUOTE] @ ''https://a,b'' @ [DQUOTE] @ '',true,false,0.1,12,a; b,''
     @ [DQUOTE] @ ''say '' @ [DQUOTE, DQUOTE] @ ''x'' @ [DQUOTE, DQUOTE, LF, DQUOTE]
     @ [LF]"
  using resultsToCsv_format
    [of "[\<lparr>url = ''https://a,b'', detected = True, valid = False, version = ''0.1'',
           toolCount = 12, toolNames = ''a; b'',
           error = ''say '' @ [DQUOTE] @ ''x'' @ [DQUOTE, LF]\<rparr>]"]
  by (simp add: csv_line_spec_def csv_field_spec_def needs_quotes_def quoted_def
      string_of_nat.simps digit_char_def)

section \<open>Properties of the Normalizer\<close>

lemma of_char_lt_256: "(of_char c :: nat) < 256"
  by (cases c) simp

lemma of_char_lower_char:
  "(of_char (lower_char c) :: nat) =
     (if (65 \<le> (of_char c :: nat) \<and> (of_char c :: nat) \<le> 90)
         \<or> (192 \<le> (of_char c :: nat) \<and> (of_char c :: nat) \<le> 222 \<and> (of_char c :: nat) \<noteq> 215)
      then of_char c + 32 else of_char c)"
  by (auto simp: lower_char_def Let_def)

lemma lower_char_eq_iff: "lower_char c = a \<longleftrightarrow> (of_char (lower_char c) :: nat) = of_char a"
  using inj_of_char [where 'a = nat] by (auto dest: injD)

lemma canonicalize_eq_iff:
  assumes "(of_char a :: nat) < 128" and "\<not> (65 \<le> (of_char a :: nat) \<and> (of_char a :: nat) \<le> 90)"
  shows "canonicalize c = canonicalize a \<longleftrightarrow> lower_char c = a"
proof -
  define n :: nat where "n = of_char c"
  define m :: nat where "m = of_char a"
  have n: "n < 256" unfolding n_def by (rule of_char_lt_256)
  have m: "m < 128" "\<not> (65 \<le> m \<and> m \<le> 90)" using assms unfolding m_def by auto
  have L: "lower_char c = a \<longleftrightarrow>
      (if (65 \<le> n \<and> n \<le> 90) \<or> (192 \<le> n \<and> n \<le> 222 \<and> n \<noteq> 215) then n + 32 else n) = m"
    unfolding n_def m_def by (simp only: lower_char_eq_iff of_char_lower_char)
  have C: "canonicalize c = canonicalize a \<longleftrightarrow>
      (if (97 \<le> n \<and> n \<le> 122) \<or> (224 \<le> n \<and> n \<le> 254 \<and> n \<noteq> 247) then n - 32
         else if n = 255 then 376 else if n = 181 then 924 else n)
      = (if (97 \<le> m \<and> m \<le> 122) then m - 32 else m)"
    using m unfolding n_def m_def canonicalize_def Let_def by auto
  show ?thesis unfolding L C using n m by (auto split: if_splits)
qed


lemma class_match_ci_single:
  assumes "(of_char a :: nat) < 128" and "\<not> (65 \<le> (of_char a :: nat) \<and> (of_char a :: nat) \<le> 90)"
  shows "class_match True [Single a] c \<longleftrightarrow> lower_char c = a"
  using canonicalize_eq_iff [OF assms] by (simp add: class_match_def)

lemma begins_with_ci_Nil: "begins_with_ci [] s"
  by (simp add: begins_with_ci_def)

lemma begins_with_ci_Cons:
  "begins_with_ci (a # p) s = (case s of [] \<Rightarrow> False | c # cs \<Rightarrow> lower_char c = a \<and> begins_with_ci p cs)"
  by (cases s) (auto simp: begins_with_ci_def toLowerCase_def)

lemma http_scheme_regex_spec:
  "test_prefix True http_scheme_regex s \<longleftrightarrow> begins_with_ci ''http://'' s \<or> begins_with_ci ''https://'' s"
  unfolding test_prefix_def http_scheme_regex_def lit_def
  by (auto simp: class_match_ci_single begins_with_ci_Cons begins_with_ci_Nil split: list.splits)

lemma rev_dropWhile_split:
  "xs = rev (dropWhile P (rev xs)) @ rev (takeWhile P (rev xs))"
proof -
  have "rev (rev xs) = rev (takeWhile P (rev xs) @ dropWhile P (rev xs))"
    by (simp only: takeWhile_dropWhile_id)
  then show ?thesis by (simp only: rev_rev_ident rev_append)
qed

lemma js_trim_rest:
  "dropWhile is_js_space s
     = js_trim s @ rev (takeWhile is_js_space (rev (dropWhile is_js_space s)))"
  unfolding js_trim_def by (rule rev_dropWhile_split)

lemma list_all_takeWhile: "list_all P (takeWhile P xs)"
  by (induction xs) simp_all

lemma js_trim_spec:
  "\<exists>pre post. s = pre @ js_trim s @ post \<and> list_all is_js_space pre \<and> list_all is_js_space post"
proof -
  let ?rest = "dropWhile is_js_space s"
  let ?post = "rev (takeWhile is_js_space (rev ?rest))"
  have "s = takeWhile is_js_space s @ ?rest" by simp
  then have "s = takeWhile is_js_space s @ js_trim s @ ?post"
    using js_trim_rest [of s] by simp
  moreover have "list_all is_js_space (takeWhile is_js_space s)"
    by (rule list_all_takeWhile)
  moreover have "list_all is_js_space ?post"
    by (simp only: list_all_rev list_all_takeWhile)
  ultimately show ?thesis by blast
qed

lemma js_trim_ends:
  assumes "js_trim s \<noteq> []"
  shows "\<not> is_js_space (hd (js_trim s)) \<and> \<not> is_js_space (last (js_trim s))"
proof -
  let ?rest = "dropWhile is_js_space s"
  let ?d = "dropWhile is_js_space (rev ?rest)"
  from assms have d: "?d \<noteq> []" by (simp add: js_trim_def)
  then have "\<not> is_js_space (hd ?d)" by (rule hd_dropWhile)
  then have last: "\<not> is_js_space (last (js_trim s))"
    using d by (simp add: js_trim_def last_rev)
  have rest: "?rest \<noteq> []"
  proof
    assume r: "?rest = []"
    have "?d = []" unfolding r by simp
    with d show False by contradiction
  qed
  then have h: "\<not> is_js_space (hd ?rest)" by (rule hd_dropWhile)
  have "hd ?rest = hd (js_trim s)"
    using js_trim_rest [of s] assms by (metis hd_append2)
  with h last show ?thesis by simp
qed

text \<open>
  Claim C6. For every input string the Normalizer works on the input without the white
  space around it (the input is white space, the trimmed string, white space, and the
  trimmed string neither begins nor ends with white space), puts \<^verbatim>\<open>https://\<close> before it
  exactly when it does not begin with \<^verbatim>\<open>http://\<close> or \<^verbatim>\<open>https://\<close> in any case, and returns the
  origin of the URL parsed from that, failing when the parser fails.
\<close>

theorem normalizeUrl_spec:
  "(\<exists>pre post. input = pre @ js_trim input @ post
       \<and> list_all is_js_space pre \<and> list_all is_js_space post)
   \<and> (js_trim input = []
        \<or> (\<not> is_js_space (hd (js_trim input)) \<and> \<not> is_js_space (last (js_trim input))))
   \<and> normalizeUrl P input =
       (case new_URL P
               (if begins_with_ci ''http://'' (js_trim input)
                   \<or> begins_with_ci ''https://'' (js_trim input)
                then js_trim input else ''https://'' @ js_trim input) of
          None \<Rightarrow> Inl Invalid_URL_TypeError
        | Some parsed \<Rightarrow> Inr (origin parsed))"
  using js_trim_spec [of input] js_trim_ends [of input]
  by (auto simp: normalizeUrl_def Let_def http_scheme_regex_spec)

theorem normalizeUrl_spec_witness:
  "normalizeUrl sample_platform ''example.com'' = Inr ''https://example.com''
   \<and> normalizeUrl sample_platform '' HTTP://Example.com/path '' = Inr ''http://example.com''"
proof -
  have a: "(case new_URL sample_platform
               (if begins_with_ci ''http://'' (js_trim ''example.com'')
                   \<or> begins_with_ci ''https://'' (js_trim ''example.com'')
                then js_trim ''example.com'' else ''https://'' @ js_trim ''example.com'') of
          None \<Rightarrow> Inl Invalid_URL_TypeError
        | Some parsed \<Rightarrow> Inr (origin parsed)) = Inr ''https://example.com''"
    by code_simp
  have b: "(case new_URL sample_platform
               (if begins_with_ci ''http://'' (js_trim '' HTTP://Example.com/path '')
                   \<or> begins_with_ci ''https://'' (js_trim '' HTTP://Example.com/path '')
                then js_trim '' HTTP://Example.com/path ''
                else ''https://'' @ js_trim '' HTTP://Example.com/path '') of
          None \<Rightarrow> Inl Invalid_URL_TypeError
        | Some parsed \<Rightarrow> Inr (origin parsed)) = Inr ''http://example.com''"
    by code_simp
  from normalizeUrl_spec [of "''example.com''" sample_platform]
    normalizeUrl_spec [of "'' HTTP://Example.com/path ''" sample_platform]
  show ?thesis unfolding a b by blast
qed

lemma lower_char_scheme:
  "lower_char (CHR ''h'') = CHR ''h''" "lower_char (CHR ''t'') = CHR ''t''"
  "lower_char (CHR ''p'') = CHR ''p''" "lower_char (CHR ''s'') = CHR ''s''"
  "lower_char (CHR '':'') = CHR '':''" "lower_char (CHR ''/'') = CHR ''/''"
  by code_simp+

lemma has_scheme_https: "test_prefix True http_scheme_regex (''https://'' @ u)"
  by (simp add: http_scheme_regex_spec begins_with_ci_def toLowerCase_def lower_char_scheme)

text \<open>
  Claim C10. The Normalizer is idempotent: when it succeeds on an input and returns the
  origin \<open>orig\<close>, it succeeds on \<open>orig\<close> and returns \<open>orig\<close>. The URL parser is the
  runtime's, so this is proved for every parser whose origins are canonical in the sense
  of \<open>canonical_origins\<close>; the program's part is that the string it hands to the parser
  always begins with \<^verbatim>\<open>http://\<close> or \<^verbatim>\<open>https://\<close>, and that trimming and the test of the
  scheme leave such an origin as it is.
\<close>

theorem normalizeUrl_idempotent:
  assumes "canonical_origins (new_URL P)"
    and "normalizeUrl P input = Inr orig"
  shows "normalizeUrl P orig = Inr orig"
proof -
  define u where
    "u = (if \<not> test_prefix True http_scheme_regex (js_trim input)
          then ''https://'' @ js_trim input else js_trim input)"
  have scheme: "test_prefix True http_scheme_regex u"
    unfolding u_def using has_scheme_https by simp
  from assms(2) obtain parsed where parsed: "new_URL P u = Some parsed" "origin parsed = orig"
    unfolding normalizeUrl_def u_def Let_def by (auto split: option.splits)
  from assms(1) scheme parsed
  have "js_trim orig = orig" "test_prefix True http_scheme_regex orig"
    "\<exists>again. new_URL P orig = Some again \<and> origin again = orig"
    unfolding canonical_origins_def by blast+
  then show ?thesis
    unfolding normalizeUrl_def Let_def by auto
qed

lemma sample_URL_range:
  "sample_URL s = Some parsed \<Longrightarrow>
     origin parsed \<in> set [''https://example.com'', ''http://example.com'', ''https://stripe.com'',
                         ''https://github.com'', ''https://example.org'']"
  unfolding sample_URL_def by (auto split: if_splits)

lemma sample_URL_fixed:
  "\<forall>orig \<in> set [''https://example.com'', ''http://example.com'', ''https://stripe.com'',
                   ''https://github.com'', ''https://example.org''].
     js_trim orig = orig \<and> test_prefix True http_scheme_regex orig
     \<and> map_option origin (sample_URL orig) = Some orig"
  by code_simp

lemma sample_canonical: "canonical_origins sample_URL"
  unfolding canonical_origins_def
proof (intro allI impI, elim conjE)
  fix s parsed
  assume "sample_URL s = Some parsed"
  then have "origin parsed \<in> set [''https://example.com'', ''http://example.com'',
      ''https://stripe.com'', ''https://github.com'', ''https://example.org'']"
    by (rule sample_URL_range)
  with sample_URL_fixed
  have "js_trim (origin parsed) = origin parsed \<and> test_prefix True http_scheme_regex (origin parsed)
     \<and> map_option origin (sample_URL (origin parsed)) = Some (origin parsed)"
    by blast
  then show "js_trim (origin parsed) = origin parsed \<and>
       test_prefix True http_scheme_regex (origin parsed) \<and>
       (\<exists>again. sample_URL (origin parsed) = Some again \<and> origin again = origin parsed)"
    by auto
qed

theorem normalizeUrl_idempotent_witness:
  "normalizeUrl sample_platform '' HTTP://Example.com/path '' = Inr ''http://example.com''
   \<and> normalizeUrl sample_platform ''http://example.com'' = Inr ''http://example.com''"
proof -
  have c: "canonical_origins (new_URL sample_platform)"
    using sample_canonical by (simp add: sample_platform_def)
  have n: "normalizeUrl sample_platform '' HTTP://Example.com/path '' = Inr ''http://example.com''"
    by code_simp
  from normalizeUrl_idempotent [OF c n] n show ?thesis by simp
qed

section \<open>Properties of the validator\<close>

lemma ajv_validate_object:
  assumes "ajv_validate fmt (SObject req additional props) p j = []"
  shows "\<exists>kvs. j = JObject kvs
           \<and> (\<forall>k \<in> set req. map_of kvs k \<noteq> None)
           \<and> (\<forall>ks \<in> set props. \<forall>v. map_of kvs (fst ks) = Some v \<longrightarrow>
                 ajv_validate fmt (snd ks) (p @ ''/'' @ fst ks) v = [])"
proof (cases j)
  case (JObject kvs)
  from assms have
    a: "concat (map (\<lambda>k. if map_of kvs k = None
                           then violation p (''must have required property '' @ [SQUOTE] @ k @ [SQUOTE])
                           else []) req) = []"
    and c: "concat (map (\<lambda>ks. case map_of kvs (fst ks) of
                                 None \<Rightarrow> []
                               | Some v \<Rightarrow> ajv_validate fmt (snd ks) (p @ ''/'' @ fst ks) v)
                      props) = []"
    unfolding JObject ajv_validate.simps json.case append_is_Nil_conv by blast+
  have "\<forall>k \<in> set req. map_of kvs k \<noteq> None"
  proof
    fix k assume "k \<in> set req"
    with a have "(if map_of kvs k = None
                           then violation p (''must have required property '' @ [SQUOTE] @ k @ [SQUOTE])
                           else []) = []"
      by (simp only: concat_eq_Nil_conv set_map) blast
    then show "map_of kvs k \<noteq> None" by (auto simp: violation_def split: if_splits)
  qed
  moreover have "\<forall>ks \<in> set props. \<forall>v. map_of kvs (fst ks) = Some v \<longrightarrow>
                 ajv_validate fmt (snd ks) (p @ ''/'' @ fst ks) v = []"
  proof (intro ballI allI impI)
    fix ks v assume ks: "ks \<in> set props" and v: "map_of kvs (fst ks) = Some v"
    from c have every: "\<forall>ks \<in> set props. (case map_of kvs (fst ks) of
                                 None \<Rightarrow> []
                               | Some v \<Rightarrow> ajv_validate fmt (snd ks) (p @ ''/'' @ fst ks) v) = []"
      by (simp del: ajv_validate.simps)
    from bspec [OF every ks] have "(case map_of kvs (fst ks) of
                                 None \<Rightarrow> []
                               | Some v \<Rightarrow> ajv_validate fmt (snd ks) (p @ ''/'' @ fst ks) v) = []" .
    then show "ajv_validate fmt (snd ks) (p @ ''/'' @ fst ks) v = []"
      unfolding v option.case .
  qed
  ultimately show ?thesis using JObject by blast
qed (use assms in \<open>simp_all add: violation_def\<close>)


lemma ajv_validate_string:
  assumes "ajv_validate fmt (SString kws) p j = []"
  shows "\<exists>s. j = JString s \<and> (\<forall>kw \<in> set kws. check_string_keyword fmt p s kw = [])"
proof (cases j)
  case (JString s)
  with assms have
    a: "\<forall>kw \<in> set (filter is_enum kws). check_string_keyword fmt p s kw = []"
    and b: "\<forall>kw \<in> set (filter (\<lambda>kw. \<not> is_enum kw) kws). check_string_keyword fmt p s kw = []"
    by simp_all
  have "\<forall>kw \<in> set kws. check_string_keyword fmt p s kw = []"
  proof
    fix kw assume kw: "kw \<in> set kws"
    show "check_string_keyword fmt p s kw = []"
    proof (cases "is_enum kw")
      case True
      with kw a show ?thesis by simp
    next
      case False
      with kw b show ?thesis by simp
    qed
  qed
  with JString show ?thesis by blast
qed (use assms in \<open>simp_all add: violation_def split: if_splits\<close>)

lemma ajv_validate_array:
  assumes "ajv_validate fmt (SArray n items) p j = []"
  shows "\<exists>xs. j = JArray xs \<and> n \<le> length xs
           \<and> (\<forall>i < length xs. ajv_validate fmt items (p @ ''/'' @ string_of_nat i) (xs ! i) = [])"
  using assms by (cases j) (auto simp: violation_def split: if_splits)

lemma required_property:
  assumes "ajv_validate fmt (SObject req additional props) p j = []"
    and "k \<in> set req" and "(k, sub) \<in> set props"
  shows "\<exists>v. property j k = Some v \<and> ajv_validate fmt sub (p @ ''/'' @ k) v = []"
proof -
  from ajv_validate_object [OF assms(1)] obtain kvs where kvs: "j = JObject kvs"
    and req: "\<forall>k \<in> set req. map_of kvs k \<noteq> None"
    and props: "\<forall>ks \<in> set props. \<forall>v. map_of kvs (fst ks) = Some v \<longrightarrow>
                 ajv_validate fmt (snd ks) (p @ ''/'' @ fst ks) v = []"
    by blast
  from req assms(2) obtain v where v: "map_of kvs k = Some v" by auto
  note at_k = props [rule_format, OF assms(3), of v]
  have sub: "ajv_validate fmt sub (p @ ''/'' @ k) v = []"
    using at_k v by (simp only: fst_conv snd_conv)
  have "property j k = Some v" using v kvs by (simp add: property_def)
  with sub show ?thesis by blast
qed

lemma required_string_property:
  assumes "ajv_validate fmt (SObject req additional props) p j = []"
    and "k \<in> set req" and "(k, SString kws) \<in> set props"
  shows "\<exists>s. string_property j k = Some s
           \<and> (\<forall>kw \<in> set kws. check_string_keyword fmt (p @ ''/'' @ k) s kw = [])"
proof -
  from required_property [OF assms] obtain v where v: "property j k = Some v"
    and sub: "ajv_validate fmt (SString kws) (p @ ''/'' @ k) v = []"
    by blast
  from ajv_validate_string [OF sub] obtain s where "v = JString s"
    and "\<forall>kw \<in> set kws. check_string_keyword fmt (p @ ''/'' @ k) s kw = []"
    by blast
  with v show ?thesis by (simp add: string_property_def)
qed

lemma those_map_Some:
  assumes "\<forall>x \<in> set xs. \<exists>y. f x = Some y"
  shows "those (map f xs) = Some (map (\<lambda>x. the (f x)) xs)"
  using assms by (induction xs) auto

lemma valid_manifest_shape:
  assumes "validate P manifest = []"
  shows "\<exists>tools names.
           string_property manifest ''manifest_version'' = Some ''0.1''
         \<and> array_property manifest ''tools'' = Some tools
         \<and> tools \<noteq> []
         \<and> those (map (\<lambda>t. string_property t ''name'') tools) = Some names"
proof -
  let ?fmt = "formats P"
  from assms have ok: "ajv_validate ?fmt webmcpSchema [] manifest = []"
    by (simp add: validate_def)
  note root = ok [unfolded webmcpSchema_def]
  have "\<exists>s. string_property manifest ''manifest_version'' = Some s
      \<and> (\<forall>kw \<in> set [Enum [''0.1'']].
            check_string_keyword ?fmt ([] @ ''/'' @ ''manifest_version'') s kw = [])"
    by (rule required_string_property [OF root]) simp_all
  then have ver: "string_property manifest ''manifest_version'' = Some ''0.1''"
    by (auto simp: violation_def split: if_splits)
  have "\<exists>v. property manifest ''tools'' = Some v
      \<and> ajv_validate ?fmt (SArray 1 tool_schema) ([] @ ''/'' @ ''tools'') v = []"
    by (rule required_property [OF root]) simp_all
  then obtain v where v: "property manifest ''tools'' = Some v"
    and arr: "ajv_validate ?fmt (SArray 1 tool_schema) ([] @ ''/'' @ ''tools'') v = []"
    by blast
  from ajv_validate_array [OF arr] obtain tools where tools: "v = JArray tools" "1 \<le> length tools"
    and each: "\<forall>i < length tools.
        ajv_validate ?fmt tool_schema (([] @ ''/'' @ ''tools'') @ ''/'' @ string_of_nat i) (tools ! i) = []"
    by blast
  have "\<forall>t \<in> set tools. \<exists>y. string_property t ''name'' = Some y"
  proof
    fix t assume "t \<in> set tools"
    then obtain i where i: "i < length tools" "tools ! i = t" by (auto simp: in_set_conv_nth)
    with each have t: "ajv_validate ?fmt tool_schema (([] @ ''/'' @ ''tools'') @ ''/'' @ string_of_nat i) t = []"
      by blast
    have "\<exists>s. string_property t ''name'' = Some s
      \<and> (\<forall>kw \<in> set [Pattern ''^[a-z][a-z0-9_]*$'' tool_name_regex True].
            check_string_keyword ?fmt ((([] @ ''/'' @ ''tools'') @ ''/'' @ string_of_nat i) @ ''/'' @ ''name'') s kw = [])"
      by (rule required_string_property [OF t [unfolded tool_schema_def]]) simp_all
    then show "\<exists>y. string_property t ''name'' = Some y" by blast
  qed
  then have "those (map (\<lambda>t. string_property t ''name'') tools)
      = Some (map (\<lambda>x. the (string_property x ''name'')) tools)"
    by (rule those_map_Some)
  moreover have "array_property manifest ''tools'' = Some tools"
    using v tools by (simp add: array_property_def)
  moreover have "tools \<noteq> []" using tools by auto
  ultimately show ?thesis using ver by blast
qed


section \<open>Properties of the Checker\<close>

text \<open>
  Claim C3. For every input on which normalization fails, the Checker returns (it does
  not throw) the outcome with the raw input as \<^verbatim>\<open>url\<close>, \<^verbatim>\<open>detected\<close> and \<^verbatim>\<open>valid\<close> false,
  the other fields empty and the error \<^verbatim>\<open>Invalid URL\<close>, and issues no request: the world
  is unchanged.
\<close>

theorem checkUrl_invalid_url:
  assumes "normalizeUrl P input = Inl e"
  shows "checkUrl P input w =
           (Inr \<lparr>url = input, detected = False, valid = False, version = [], toolCount = 0,
                 toolNames = [], error = ''Invalid URL''\<rparr>, w)"
  using assms by (simp add: checkUrl_def failure_def)

theorem checkUrl_invalid_url_witness:
  "checkUrl sample_platform [] [] =
     (Inr \<lparr>url = [], detected = False, valid = False, version = [], toolCount = 0,
           toolNames = [], error = ''Invalid URL''\<rparr>, [])
   \<and> checkUrl sample_platform ''http://'' [] =
     (Inr \<lparr>url = ''http://'', detected = False, valid = False, version = [], toolCount = 0,
           toolNames = [], error = ''Invalid URL''\<rparr>, [])"
proof -
  have a: "normalizeUrl sample_platform [] = Inl Invalid_URL_TypeError" by code_simp
  have b: "normalizeUrl sample_platform ''http://'' = Inl Invalid_URL_TypeError" by code_simp
  from checkUrl_invalid_url [OF a, of "[]"] checkUrl_invalid_url [OF b, of "[]"]
  show ?thesis by simp
qed

text \<open>
  Claim C4. After a successful normalization, for every response of \<^verbatim>\<open>fetch\<close>: when the
  status is not from 200 to 299 the outcome is not detected, not valid, with the error
  \<^verbatim>\<open>HTTP\<close>, a space and the decimal status, whatever the body is (it is not read); when the
  status is from 200 to 299 and the body is no JSON, the outcome is not detected, not valid,
  with the error \<^verbatim>\<open>Invalid JSON\<close>.
\<close>

theorem checkUrl_http_error:
  assumes "normalizeUrl P input = Inr orig"
    and "fetch P (manifest_request orig) w = (Resolves response, w')"
  shows "(\<not> (200 \<le> status response \<and> status response \<le> 299) \<longrightarrow>
            checkUrl P input w =
              (Inr \<lparr>url = orig, detected = False, valid = False, version = [], toolCount = 0,
                    toolNames = [], error = ''HTTP '' @ string_of_nat (status response)\<rparr>, w'))
       \<and> (200 \<le> status response \<and> status response \<le> 299 \<and> json_body response = None \<longrightarrow>
            checkUrl P input w =
              (Inr \<lparr>url = orig, detected = False, valid = False, version = [], toolCount = 0,
                    toolNames = [], error = ''Invalid JSON''\<rparr>, w'))"
  using assms by (simp add: checkUrl_def failure_def ok_def)

text \<open>
  Claim C5. For every fetched and parsed document that the validator rejects, the outcome
  is detected, not valid, and its error is \<^verbatim>\<open>Invalid manifest: \<close> followed by all the
  violations the validator collected, each rendered as its path and message, joined by a
  semicolon and a space.
\<close>

theorem checkUrl_invalid_manifest:
  assumes "normalizeUrl P input = Inr orig"
    and "fetch P (manifest_request orig) w = (Resolves response, w')"
    and "ok response"
    and "json_body response = Some manifest"
    and "validate P manifest \<noteq> []"
  shows "checkUrl P input w =
           (Inr \<lparr>url = orig, detected = True, valid = False, version = [], toolCount = 0,
                 toolNames = [],
                 error = ''Invalid manifest: ''
                           @ js_join ''; '' (map render_error (validate P manifest))\<rparr>, w')"
  using assms by (simp add: checkUrl_def failure_def Let_def)



lemma string_property_Some:
  "string_property j k = Some s \<longleftrightarrow> property j k = Some (JString s)"
  by (auto simp: string_property_def split: option.splits json.splits)

lemma array_property_Some:
  "array_property j k = Some xs \<longleftrightarrow> property j k = Some (JArray xs)"
  by (auto simp: array_property_def split: option.splits json.splits)

lemma string_properties_map:
  "map (\<lambda>t. string_property t k) ts = map Some ns \<Longrightarrow>
     map (\<lambda>t. property t k) ts = map (\<lambda>n. Some (JString n)) ns"
  by (induction ts arbitrary: ns) (auto simp: string_property_Some)

lemma those_eq_Some: "those xs = Some ys \<Longrightarrow> xs = map Some ys"
  by (induction xs arbitrary: ys) (auto split: option.splits)

lemma checkUrl_of_valid:
  assumes "normalizeUrl P input = Inr orig"
    and "fetch P (manifest_request orig) w = (Resolves response, w')"
    and "ok response"
    and "json_body response = Some manifest"
    and "validate P manifest = []"
  shows "\<exists>tools names.
           string_property manifest ''manifest_version'' = Some ''0.1''
         \<and> array_property manifest ''tools'' = Some tools
         \<and> tools \<noteq> []
         \<and> those (map (\<lambda>t. string_property t ''name'') tools) = Some names
         \<and> checkUrl P input w =
             (Inr \<lparr>url = orig, detected = True, valid = True, version = ''0.1'',
                   toolCount = length tools, toolNames = js_join ''; '' names, error = []\<rparr>, w')"
proof -
  from valid_manifest_shape [OF assms(5)] obtain tools names where
    shape: "string_property manifest ''manifest_version'' = Some ''0.1''"
      "array_property manifest ''tools'' = Some tools" "tools \<noteq> []"
      "those (map (\<lambda>t. string_property t ''name'') tools) = Some names"
    by blast
  with assms have "checkUrl P input w =
             (Inr \<lparr>url = orig, detected = True, valid = True, version = ''0.1'',
                   toolCount = length tools, toolNames = js_join ''; '' names, error = []\<rparr>, w')"
    by (simp add: checkUrl_def Let_def)
  with shape show ?thesis by blast
qed

lemma checkUrl_returns: "\<exists>r w'. checkUrl P input w = (Inr r, w')"
proof (cases "normalizeUrl P input")
  case (Inl e)
  then show ?thesis by (simp add: checkUrl_def)
next
  case (Inr orig)
  obtain res w' where f: "fetch P (manifest_request orig) w = (res, w')" by (cases "fetch P (manifest_request orig) w")
  show ?thesis
  proof (cases res)
    case (Rejects err)
    with Inr f show ?thesis by (simp add: checkUrl_def)
  next
    case (Resolves response)
    show ?thesis
    proof (cases "ok response \<and> json_body response \<noteq> None")
      case False
      with Inr f Resolves show ?thesis by (auto simp: checkUrl_def)
    next
      case True
      then obtain manifest where m: "ok response" "json_body response = Some manifest" by auto
      show ?thesis
      proof (cases "validate P manifest = []")
        case True
        from checkUrl_of_valid [OF Inr f [unfolded Resolves] m True] show ?thesis by blast
      next
        case False
        with Inr f Resolves m show ?thesis by (simp add: checkUrl_def Let_def)
      qed
    qed
  qed
qed

lemma checkUrl_fields:
  assumes "checkUrl P input w = (Inr r, w')"
  shows "(valid r \<longrightarrow> detected r \<and> error r = [])
       \<and> (\<not> valid r \<longrightarrow> version r = [] \<and> toolCount r = 0 \<and> toolNames r = [])"
  using assms
  by (auto simp: checkUrl_def failure_def Let_def
      split: sum.splits prod.splits fetch_result.splits if_splits option.splits)

text \<open>
  Claim C1. For every fetched and parsed document that conforms to the manifest schema
  (the validator reports no violation), the document has a string \<^verbatim>\<open>manifest_version\<close>, an
  array \<^verbatim>\<open>tools\<close> and a string \<^verbatim>\<open>name\<close> in each tool, and the outcome is detected and
  valid with that version, the length of \<^verbatim>\<open>tools\<close> as tool count, the names joined in order
  by a semicolon and a space, and the empty error.
\<close>

theorem checkUrl_valid_manifest:
  assumes "normalizeUrl P input = Inr orig"
    and "fetch P (manifest_request orig) w = (Resolves response, w')"
    and "200 \<le> status response \<and> status response \<le> 299"
    and "json_body response = Some manifest"
    and "validate P manifest = []"
  shows "\<exists>v tools names.
           property manifest ''manifest_version'' = Some (JString v)
         \<and> property manifest ''tools'' = Some (JArray tools)
         \<and> map (\<lambda>t. property t ''name'') tools = map (\<lambda>n. Some (JString n)) names
         \<and> checkUrl P input w =
             (Inr \<lparr>url = orig, detected = True, valid = True, version = v,
                   toolCount = length tools, toolNames = js_join ''; '' names, error = []\<rparr>, w')"
proof -
  from assms(3) have "ok response" by (simp add: ok_def)
  from checkUrl_of_valid [OF assms(1,2) this assms(4,5)] obtain tools names where
    v: "string_property manifest ''manifest_version'' = Some ''0.1''"
    and t: "array_property manifest ''tools'' = Some tools"
    and n: "those (map (\<lambda>t. string_property t ''name'') tools) = Some names"
    and c: "checkUrl P input w =
             (Inr \<lparr>url = orig, detected = True, valid = True, version = ''0.1'',
                   toolCount = length tools, toolNames = js_join ''; '' names, error = []\<rparr>, w')"
    by blast
  from v have v': "property manifest ''manifest_version'' = Some (JString ''0.1'')"
    by (simp only: string_property_Some)
  from t have t': "property manifest ''tools'' = Some (JArray tools)"
    by (simp only: array_property_Some)
  from those_eq_Some [OF n]
  have "map (\<lambda>t. property t ''name'') tools = map (\<lambda>n. Some (JString n)) names"
    by (rule string_properties_map)
  with v' t' c show ?thesis by blast
qed

text \<open>
  Claim C2. For every input and every behaviour of the platform the Checker returns an
  outcome, and the outcome satisfies: valid implies detected; unless valid, the version is
  empty, the tool count is 0 and the tool names are empty; and when valid the error is
  empty.
\<close>

theorem checkUrl_outcome_invariant:
  "\<exists>r w'. checkUrl P input w = (Inr r, w')
     \<and> (valid r \<longrightarrow> detected r)
     \<and> (\<not> valid r \<longrightarrow> version r = [] \<and> toolCount r = 0 \<and> toolNames r = [])
     \<and> (valid r \<longrightarrow> error r = [])"
proof -
  from checkUrl_returns [of P input w] obtain r w' where c: "checkUrl P input w = (Inr r, w')"
    by blast
  from checkUrl_fields [OF c] c show ?thesis by blast
qed

section \<open>Properties of the batch loop\<close>

lemma runBatch_loop_general:
  "\<exists>rs. runBatch_loop P urls results n w
            = Inr (results @ rs, n + length (filter valid rs), world_after P urls w)
       \<and> length rs = length urls
       \<and> (\<forall>i < length urls.
             fst (checkUrl P (urls ! i) (world_after P (take i urls) w)) = Inr (rs ! i))"
proof (induction urls arbitrary: results n w)
  case Nil
  show ?case by simp
next
  case (Cons u urls)
  from checkUrl_returns [of P u w] obtain r w' where c: "checkUrl P u w = (Inr r, w')" by blast
  let ?n = "if detected r \<and> valid r then n + 1 else n"
  from Cons.IH [of "results @ [r]" ?n w'] obtain rs where
    loop: "runBatch_loop P urls (results @ [r]) ?n w'
            = Inr ((results @ [r]) @ rs, ?n + length (filter valid rs), world_after P urls w')"
    and len: "length rs = length urls"
    and each: "\<forall>i < length urls.
             fst (checkUrl P (urls ! i) (world_after P (take i urls) w')) = Inr (rs ! i)"
    by blast
  from checkUrl_fields [OF c] have count: "?n = n + length (filter valid [r])" by auto
  have "runBatch_loop P (u # urls) results n w
      = Inr (results @ (r # rs), n + length (filter valid (r # rs)), world_after P (u # urls) w)"
    using c loop count by simp
  moreover have "length (r # rs) = length (u # urls)" using len by simp
  moreover have "\<forall>i < length (u # urls).
      fst (checkUrl P ((u # urls) ! i) (world_after P (take i (u # urls)) w)) = Inr ((r # rs) ! i)"
  proof (intro allI impI)
    fix i assume "i < length (u # urls)"
    then show "fst (checkUrl P ((u # urls) ! i) (world_after P (take i (u # urls)) w))
        = Inr ((r # rs) ! i)"
      using c each by (cases i) simp_all
  qed
  ultimately show ?case by blast
qed

text \<open>
  Claim C7. For every list of entries the loop ends without an exception, with as many
  outcomes as entries, the \<open>i\<close>-th outcome being what the Checker returns for the \<open>i\<close>-th
  entry in the world left by the entries before it (the entries are checked one at a
  time, in order), and with a count equal to the number of outcomes that are valid.
\<close>

theorem runBatch_loop_outcomes:
  "\<exists>rs. runBatch_loop P urls [] 0 w
            = Inr (rs, length (filter valid rs), world_after P urls w)
       \<and> length rs = length urls
       \<and> (\<forall>i < length urls.
             fst (checkUrl P (urls ! i) (world_after P (take i urls) w)) = Inr (rs ! i))"
  using runBatch_loop_general [of P urls "[]" 0 w] by simp

section \<open>The properties on the sample platform\<close>

lemma sample_normalize:
  "normalizeUrl sample_platform ''example.com'' = Inr ''https://example.com''"
  "normalizeUrl sample_platform ''stripe.com'' = Inr ''https://stripe.com''"
  "normalizeUrl sample_platform ''http://example.com'' = Inr ''http://example.com''"
  "normalizeUrl sample_platform ''https://example.org'' = Inr ''https://example.org''"
  by code_simp+

lemma sample_fetches:
  "fetch sample_platform (manifest_request ''https://example.com'') []
     = (Resolves \<lparr>status = 200, json_body = Some sample_manifest\<rparr>,
        [''https://example.com/.well-known/webmcp.json''])"
  "fetch sample_platform (manifest_request ''https://stripe.com'') []
     = (Resolves \<lparr>status = 404, json_body = Some sample_manifest\<rparr>,
        [''https://stripe.com/.well-known/webmcp.json''])"
  "fetch sample_platform (manifest_request ''http://example.com'') []
     = (Resolves \<lparr>status = 200, json_body = None\<rparr>,
        [''http://example.com/.well-known/webmcp.json''])"
  "fetch sample_platform (manifest_request ''https://example.org'') []
     = (Resolves \<lparr>status = 200, json_body = Some broken_manifest\<rparr>,
        [''https://example.org/.well-known/webmcp.json''])"
  by code_simp+

lemma sample_manifest_valid: "validate sample_platform sample_manifest = []"
  by code_simp

lemma sample_manifest_fields:
  "property sample_manifest ''manifest_version'' = Some (JString ''0.1'')"
  "property sample_manifest ''tools''
     = Some (JArray [sample_tool ''search_products'', sample_tool ''get_order'',
                     sample_tool ''create_return''])"
  "map (\<lambda>t. property t ''name'')
       [sample_tool ''search_products'', sample_tool ''get_order'', sample_tool ''create_return'']
     = map (\<lambda>n. Some (JString n)) [''search_products'', ''get_order'', ''create_return'']"
  by code_simp+

theorem checkUrl_valid_manifest_witness:
  "checkUrl sample_platform ''example.com'' [] =
     (Inr \<lparr>url = ''https://example.com'', detected = True, valid = True, version = ''0.1'',
           toolCount = 3, toolNames = ''search_products; get_order; create_return'',
           error = []\<rparr>,
      [''https://example.com/.well-known/webmcp.json''])"
proof -
  from checkUrl_valid_manifest [OF sample_normalize(1) sample_fetches(1) _ _ sample_manifest_valid]
  obtain v tools names where
    v: "property sample_manifest ''manifest_version'' = Some (JString v)"
    and t: "property sample_manifest ''tools'' = Some (JArray tools)"
    and n: "map (\<lambda>t. property t ''name'') tools = map (\<lambda>n. Some (JString n)) names"
    and c: "checkUrl sample_platform ''example.com'' [] =
             (Inr \<lparr>url = ''https://example.com'', detected = True, valid = True, version = v,
                   toolCount = length tools, toolNames = js_join ''; '' names, error = []\<rparr>,
              [''https://example.com/.well-known/webmcp.json''])"
    by auto
  from v have v': "v = ''0.1''" unfolding sample_manifest_fields(1) by simp
  from t have t': "tools = [sample_tool ''search_products'', sample_tool ''get_order'',
                     sample_tool ''create_return'']"
    unfolding sample_manifest_fields(2) by simp
  from n have "map (\<lambda>n. Some (JString n)) names
      = map (\<lambda>n. Some (JString n)) [''search_products'', ''get_order'', ''create_return'']"
    unfolding t' sample_manifest_fields(3) by simp
  then have n': "names = [''search_products'', ''get_order'', ''create_return'']"
    by (auto simp: map_eq_Cons_conv)
  show ?thesis unfolding c v' t' n' by simp
qed

theorem checkUrl_http_error_witness:
  "checkUrl sample_platform ''stripe.com'' [] =
     (Inr \<lparr>url = ''https://stripe.com'', detected = False, valid = False, version = [],
           toolCount = 0, toolNames = [], error = ''HTTP 404''\<rparr>,
      [''https://stripe.com/.well-known/webmcp.json''])
   \<and> checkUrl sample_platform ''http://example.com'' [] =
     (Inr \<lparr>url = ''http://example.com'', detected = False, valid = False, version = [],
           toolCount = 0, toolNames = [], error = ''Invalid JSON''\<rparr>,
      [''http://example.com/.well-known/webmcp.json''])"
proof -
  have s: "string_of_nat 404 = ''404''" by code_simp
  from checkUrl_http_error [OF sample_normalize(2) sample_fetches(2)]
    checkUrl_http_error [OF sample_normalize(3) sample_fetches(3)]
  show ?thesis by (simp add: s)
qed


lemma broken_manifest_invalid: "validate sample_platform broken_manifest \<noteq> []"
  by code_simp

theorem checkUrl_invalid_manifest_witness:
  "checkUrl sample_platform ''https://example.org'' [] =
     (Inr \<lparr>url = ''https://example.org'', detected = True, valid = False, version = [],
           toolCount = 0, toolNames = [],
           error = ''Invalid manifest: / must have required property '' @ [SQUOTE] @ ''origin''
             @ [SQUOTE] @ ''; / must have required property '' @ [SQUOTE] @ ''updated_at''
             @ [SQUOTE] @ ''; /manifest_version must be string''
             @ ''; /manifest_version must be equal to one of the allowed values''
             @ ''; /tools must NOT have fewer than 1 items''\<rparr>,
      [''https://example.org/.well-known/webmcp.json''])"
proof -
  have e: "''Invalid manifest: ''
        @ js_join ''; '' (map render_error (validate sample_platform broken_manifest))
      = ''Invalid manifest: / must have required property '' @ [SQUOTE] @ ''origin''
             @ [SQUOTE] @ ''; / must have required property '' @ [SQUOTE] @ ''updated_at''
             @ [SQUOTE] @ ''; /manifest_version must be string''
             @ ''; /manifest_version must be equal to one of the allowed values''
             @ ''; /tools must NOT have fewer than 1 items''"
    by code_simp
  have k: "ok \<lparr>status = 200, json_body = Some broken_manifest\<rparr>" by (simp add: ok_def)
  from checkUrl_invalid_manifest
    [OF sample_normalize(4) sample_fetches(4) k _ broken_manifest_invalid]
  show ?thesis unfolding e by simp
qed

lemma sample_checks:
  "checkUrl sample_platform ''example.com'' [] =
     (Inr \<lparr>url = ''https://example.com'', detected = True, valid = True, version = ''0.1'',
           toolCount = 3, toolNames = ''search_products; get_order; create_return'',
           error = []\<rparr>,
      [''https://example.com/.well-known/webmcp.json''])"
  "checkUrl sample_platform ''stripe.com'' [] =
     (Inr \<lparr>url = ''https://stripe.com'', detected = False, valid = False, version = [],
           toolCount = 0, toolNames = [], error = ''HTTP 404''\<rparr>,
      [''https://stripe.com/.well-known/webmcp.json''])"
  by code_simp+

theorem checkUrl_outcome_invariant_witness:
  "(case fst (checkUrl sample_platform ''example.com'' []) of
      Inl e \<Rightarrow> False
    | Inr r \<Rightarrow> valid r \<and> detected r \<and> error r = [])
   \<and> (case fst (checkUrl sample_platform ''stripe.com'' []) of
      Inl e \<Rightarrow> False
    | Inr r \<Rightarrow> \<not> valid r \<and> version r = [] \<and> toolCount r = 0 \<and> toolNames r = [])"
proof -
  from checkUrl_outcome_invariant [of sample_platform "''example.com''" "[]"]
  obtain r w' where a: "checkUrl sample_platform ''example.com'' [] = (Inr r, w')"
    and a': "valid r \<longrightarrow> detected r" "valid r \<longrightarrow> error r = []"
    by blast
  from checkUrl_outcome_invariant [of sample_platform "''stripe.com''" "[]"]
  obtain q v' where b: "checkUrl sample_platform ''stripe.com'' [] = (Inr q, v')"
    and b': "\<not> valid q \<longrightarrow> version q = [] \<and> toolCount q = 0 \<and> toolNames q = []"
    by blast
  from a have "valid r" unfolding sample_checks(1) by auto
  moreover from b have "\<not> valid q" unfolding sample_checks(2) by auto
  ultimately show ?thesis using a a' b b' by simp
qed

lemma sample_batch:
  "runBatch_loop sample_platform [''https://stripe.com'', ''https://github.com'', ''https://example.com''] [] 0 []
     = Inr ([\<lparr>url = ''https://stripe.com'', detected = False, valid = False, version = [],
              toolCount = 0, toolNames = [], error = ''HTTP 404''\<rparr>,
             \<lparr>url = ''https://github.com'', detected = False, valid = False, version = [],
              toolCount = 0, toolNames = [], error = ''fetch failed''\<rparr>,
             \<lparr>url = ''https://example.com'', detected = True, valid = True, version = ''0.1'',
              toolCount = 3, toolNames = ''search_products; get_order; create_return'',
              error = []\<rparr>],
            1,
            [''https://stripe.com/.well-known/webmcp.json'',
             ''https://github.com/.well-known/webmcp.json'',
             ''https://example.com/.well-known/webmcp.json''])"
  by code_simp

theorem runBatch_loop_outcomes_witness:
  "\<exists>rs. runBatch_loop sample_platform
            [''https://stripe.com'', ''https://github.com'', ''https://example.com''] [] 0 []
          = Inr (rs, 1, [''https://stripe.com/.well-known/webmcp.json'',
                         ''https://github.com/.well-known/webmcp.json'',
                         ''https://example.com/.well-known/webmcp.json''])
       \<and> length rs = 3
       \<and> length (filter valid rs) = 1
       \<and> toolNames (rs ! 2) = ''search_products; get_order; create_return''"
proof -
  from runBatch_loop_outcomes
    [of sample_platform "[''https://stripe.com'', ''https://github.com'', ''https://example.com'']" "[]"]
  obtain rs where
    loop: "runBatch_loop sample_platform
            [''https://stripe.com'', ''https://github.com'', ''https://example.com''] [] 0 []
          = Inr (rs, length (filter valid rs),
                 world_after sample_platform
                   [''https://stripe.com'', ''https://github.com'', ''https://example.com''] [])"
    and len: "length rs = length [''https://stripe.com'', ''https://github.com'', ''https://example.com'']"
    by blast
  from loop [unfolded sample_batch] have
    rs: "rs = [\<lparr>url = ''https://stripe.com'', detected = False, valid = False, version = [],
              toolCount = 0, toolNames = [], error = ''HTTP 404''\<rparr>,
             \<lparr>url = ''https://github.com'', detected = False, valid = False, version = [],
              toolCount = 0, toolNames = [], error = ''fetch failed''\<rparr>,
             \<lparr>url = ''https://example.com'', detected = True, valid = True, version = ''0.1'',
              toolCount = 3, toolNames = ''search_products; get_order; create_return'',
              error = []\<rparr>]"
    by simp
  show ?thesis unfolding sample_batch rs by simp
qed

section \<open>The input parser on a header with several columns\<close>

text \<open>
  Claim C9. The parser compares the whole first non-blank line, lower-cased and trimmed,
  with \<^verbatim>\<open>url\<close>, \<^verbatim>\<open>domain\<close> and \<^verbatim>\<open>website\<close>, not its first column: on the two lines
  \<^verbatim>\<open>url,name\<close> and \<^verbatim>\<open>https://a.com,x\<close> the first column of the first line is \<^verbatim>\<open>url\<close>, yet
  the line is not skipped, and \<^verbatim>\<open>url\<close> is returned as an origin before \<^verbatim>\<open>https://a.com\<close>.
\<close>

theorem parseCsvUrls_header_with_columns:
  "js_trim (toLowerCase (first_column ''url,name'')) = ''url''
   \<and> parseCsvUrls (''url,name'' @ [LF] @ ''https://a.com,x'' @ [LF])
       = [''url'', ''https://a.com'']"
  by code_simp

end
